theory Spec2Isabelle
  imports Main "HOL-Library.Word"
begin

section \<open>ISP cooling device: fps table, translation engine, state apply\<close>

text \<open>
  A shallow embedding of \<^verbatim>\<open>drivers/thermal/samsung/isp_cooling.c\<close>.

  Integer types. The driver belongs to an arm64 kernel (LP64): \<^verbatim>\<open>unsigned int\<close> and
  \<^verbatim>\<open>int\<close> are 32 bits wide, \<^verbatim>\<open>unsigned long\<close> is 64 bits wide. Every cast
  of the source between the two widths is written out (\<open>ucast\<close>, \<open>scast\<close>).
  The two counters of \<^verbatim>\<open>get_property\<close> (\<^verbatim>\<open>max_level\<close>, \<^verbatim>\<open>i\<close>) and
  \<^verbatim>\<open>count\<close> of \<^verbatim>\<open>isp_cooling_table_init\<close> count entries of an array
  held in memory; they are natural numbers here (an array has far fewer than
  \<open>2 ^ 31\<close> entries), and are converted to words where the source stores or compares
  them as such.
\<close>

type_synonym uint = "32 word"
type_synonym ulong = "64 word"

datatype errno = EINVAL | ENODEV | ENOMEM

subsection \<open>The table and what the absent header declares\<close>

text \<open>\<^verbatim>\<open>struct isp_fps_table\<close>: the three fields the source assigns.\<close>

record isp_fps_table =
  flags :: uint
  driver_data :: uint
  fps :: uint

text \<open>
  The constants of \<^verbatim>\<open>soc/samsung/isp_cooling.h\<close> and \<^verbatim>\<open>linux/thermal.h\<close>
  that the source uses. The headers are not part of the sources at hand, so the values are
  parameters of every function that uses one.
\<close>

record isp_cooling_h =
  ISP_FPS_ENTRY_INVALID :: uint
  ISP_FPS_TABLE_END :: uint
  ISP_FPS_INVALID :: ulong
  THERMAL_CSTATE_INVALID :: ulong
  ISP_THROTTLING :: ulong

text \<open>
  Modelled from the spec: the iteration macro \<^verbatim>\<open>isp_fps_for_each_valid_entry\<close> of the
  absent header \<^verbatim>\<open>soc/samsung/isp_cooling.h\<close>. The table is an ordered sequence of
  entries ended by a sentinel entry whose fps is the reserved end value; the macro visits,
  in table order, the entries before the sentinel, leaving out those whose fps is the
  reserved invalid value. A list that holds no sentinel is visited to its end.
\<close>

fun valid_entries :: "isp_cooling_h \<Rightarrow> isp_fps_table list \<Rightarrow> isp_fps_table list" where
  "valid_entries h [] = []"
| "valid_entries h (pos # rest) =
     (if fps pos = ISP_FPS_TABLE_END h then []
      else if fps pos = ISP_FPS_ENTRY_INVALID h then valid_entries h rest
      else pos # valid_entries h rest)"

subsection \<open>\<^verbatim>\<open>get_property\<close>\<close>

datatype isp_cooling_property = GET_LEVEL | GET_FPS | GET_MAXL

text \<open>
  The first loop of \<^verbatim>\<open>get_property\<close>, over the valid entries. The state is
  \<open>(fps, descend, max_level)\<close>, started by the caller at
  \<open>(ISP_FPS_ENTRY_INVALID, -1, 0)\<close>.
\<close>

fun count_levels ::
  "isp_cooling_h \<Rightarrow> isp_fps_table list \<Rightarrow> uint \<times> int \<times> nat \<Rightarrow> uint \<times> int \<times> nat" where
  "count_levels h [] s = s"
| "count_levels h (pos # rest) (cur, descend, max_level) =
     (if cur = fps pos then count_levels h rest (cur, descend, max_level)
      else count_levels h rest
        (fps pos,
         if cur \<noteq> ISP_FPS_ENTRY_INVALID h \<and> descend = -1
         then (if cur > fps pos then 1 else 0) else descend,
         max_level + 1))"

text \<open>
  The second loop. \<open>cur\<close> is the variable \<^verbatim>\<open>fps\<close>, which the source does not
  set again between the two loops; \<open>level\<close> is \<^verbatim>\<open>(int)input\<close> converted back to
  \<^verbatim>\<open>unsigned long\<close>. The comparison \<^verbatim>\<open>level == i\<close> and the expression
  \<^verbatim>\<open>descend ? i : (max_level - i)\<close> are evaluated in \<^verbatim>\<open>unsigned long\<close>, the
  result is cast to \<^verbatim>\<open>unsigned int\<close>. \<open>Inr v\<close> is the return value 0 with
  \<^verbatim>\<open>*output = v\<close>.
\<close>

fun find_entry ::
  "isp_cooling_property \<Rightarrow> ulong \<Rightarrow> int \<Rightarrow> nat \<Rightarrow> ulong \<Rightarrow>
   isp_fps_table list \<Rightarrow> uint \<Rightarrow> nat \<Rightarrow> errno + uint" where
  "find_entry property input descend max_level level [] cur i = Inl EINVAL"
| "find_entry property input descend max_level level (pos # rest) cur i =
     (if cur = fps pos then find_entry property input descend max_level level rest cur i
      else if property = GET_LEVEL \<and> (ucast input :: uint) = fps pos
      then Inr (ucast (if descend \<noteq> 0 then (of_nat i :: ulong)
                       else of_nat max_level - of_nat i))
      else if property = GET_FPS \<and> level = of_nat i
      then Inr (fps pos)
      else find_entry property input descend max_level level rest (fps pos) (i + 1))"

text \<open>
  \<^verbatim>\<open>get_property(isp, input, output, property)\<close>. The global pointer
  \<^verbatim>\<open>isp_fps_table\<close> is the argument \<open>table\<close> (\<open>None\<close> is NULL);
  \<open>output\<close> says whether the pointer \<^verbatim>\<open>output\<close> is non-null.
\<close>

definition get_property ::
  "isp_cooling_h \<Rightarrow> isp_fps_table list option \<Rightarrow> uint \<Rightarrow> ulong \<Rightarrow> bool \<Rightarrow>
   isp_cooling_property \<Rightarrow> errno + uint" where
  "get_property h table isp input output property =
     (if \<not> output then Inl EINVAL
      else case table of
        None \<Rightarrow> Inl EINVAL
      | Some tbl \<Rightarrow>
          (case count_levels h (valid_entries h tbl) (ISP_FPS_ENTRY_INVALID h, -1, 0) of
             (cur, descend, max_level) \<Rightarrow>
               if max_level = 0 then Inl EINVAL
               else if property = GET_MAXL then Inr (of_nat (max_level - 1))
               else find_entry property input descend (max_level - 1)
                      (scast (ucast input :: uint)) (valid_entries h tbl) cur 0))"

text \<open>The two exported translations.\<close>

definition isp_cooling_get_level ::
  "isp_cooling_h \<Rightarrow> isp_fps_table list option \<Rightarrow> uint \<Rightarrow> uint \<Rightarrow> ulong" where
  "isp_cooling_get_level h table isp f =
     (case get_property h table isp (ucast f) True GET_LEVEL of
        Inl e \<Rightarrow> THERMAL_CSTATE_INVALID h
      | Inr val \<Rightarrow> ucast val)"

definition isp_cooling_get_fps ::
  "isp_cooling_h \<Rightarrow> isp_fps_table list option \<Rightarrow> uint \<Rightarrow> ulong \<Rightarrow> ulong" where
  "isp_cooling_get_fps h table isp level =
     (case get_property h table isp level True GET_FPS of
        Inl e \<Rightarrow> ISP_FPS_INVALID h
      | Inr val \<Rightarrow> ucast val)"

subsection \<open>\<^verbatim>\<open>isp_apply_cooling\<close> and \<^verbatim>\<open>isp_set_cur_state\<close>\<close>

text \<open>
  \<^verbatim>\<open>struct isp_cooling_device\<close>; its field \<^verbatim>\<open>id\<close> is \<open>isp_id\<close> here.
  The field \<^verbatim>\<open>cool_dev\<close>, the pointer back to the thermal framework's device, is left
  out: none of the functions modelled here reads it.
\<close>

record isp_cooling_device =
  isp_id :: "32 word"
  isp_state :: uint
  isp_val :: uint

text \<open>
  \<^verbatim>\<open>blocking_notifier_call_chain(&isp_notifier, ISP_THROTTLING, &cooling_state)\<close>
  hands the action code and the value behind the pointer to every subscriber. The calls made
  so far are a list of such pairs, the newest last.
\<close>

type_synonym notification = "ulong \<times> ulong"

text \<open>
  The comparison \<^verbatim>\<open>isp_device->isp_state == cooling_state\<close> is made in
  \<^verbatim>\<open>unsigned long\<close>; the store casts to \<^verbatim>\<open>unsigned int\<close>.
  \<open>Inr ()\<close> is the return value 0.
\<close>

definition isp_apply_cooling ::
  "isp_cooling_h \<Rightarrow> isp_cooling_device \<Rightarrow> ulong \<Rightarrow> notification list \<Rightarrow>
   (errno + unit) \<times> isp_cooling_device \<times> notification list" where
  "isp_apply_cooling h isp_device cooling_state chain =
     (if (ucast (isp_state isp_device) :: ulong) = cooling_state
      then (Inr (), isp_device, chain)
      else (Inr (), isp_device\<lparr>isp_state := ucast cooling_state\<rparr>,
            chain @ [(ISP_THROTTLING h, cooling_state)]))"

text \<open>\<open>isp_device\<close> is \<^verbatim>\<open>cdev->devdata\<close>.\<close>

definition isp_set_cur_state ::
  "isp_cooling_h \<Rightarrow> isp_cooling_device \<Rightarrow> ulong \<Rightarrow> notification list \<Rightarrow>
   (errno + unit) \<times> isp_cooling_device \<times> notification list" where
  "isp_set_cur_state h isp_device state chain = isp_apply_cooling h isp_device state chain"

subsection \<open>\<^verbatim>\<open>isp_cooling_table_init\<close>\<close>

text \<open>
  Modelled from the spec: the platform configuration source (ECT), whose parser is not
  part of the sources at hand. It is a read-only table, keyed by function name, of ranges
  \<open>{lowerBoundTemperature, maxFrequency}\<close>. \<^verbatim>\<open>range_list\<close> is a list and
  \<^verbatim>\<open>num_of_range\<close> its length; \<^verbatim>\<open>ect_get_block(BLOCK_AP_THERMAL)\<close> is the field
  \<open>thermal_block\<close> of the environment (\<open>None\<close> is NULL), and
  \<^verbatim>\<open>ect_ap_thermal_get_function\<close> looks a function up by name.
\<close>

record ect_ap_thermal_range =
  lower_bound_temperature :: uint
  max_frequency :: uint

record ect_ap_thermal_function =
  function_name :: string
  range_list :: "ect_ap_thermal_range list"

definition num_of_range :: "ect_ap_thermal_function \<Rightarrow> nat" where
  "num_of_range function = length (range_list function)"

definition ect_ap_thermal_get_function ::
  "ect_ap_thermal_function list \<Rightarrow> string \<Rightarrow> ect_ap_thermal_function option" where
  "ect_ap_thermal_get_function block name = find (\<lambda>f. function_name f = name) block"

text \<open>
  What the function meets when it runs: whether the kernel was configured with
  \<^verbatim>\<open>CONFIG_ECT\<close> (or \<^verbatim>\<open>CONFIG_ECT_MODULE\<close>), the thermal block, and whether
  \<^verbatim>\<open>kzalloc\<close> finds memory.
\<close>

record init_env =
  CONFIG_ECT :: bool
  thermal_block :: "ect_ap_thermal_function list option"
  kzalloc_fails :: bool

definition zero_entry :: isp_fps_table where
  "zero_entry = \<lparr>flags = 0, driver_data = 0, fps = 0\<rparr>"

text \<open>\<^verbatim>\<open>kzalloc(sizeof(struct isp_fps_table) * n, GFP_KERNEL)\<close>: NULL, or \<open>n\<close> zeroed entries.\<close>

definition kzalloc :: "init_env \<Rightarrow> nat \<Rightarrow> isp_fps_table list option" where
  "kzalloc env n = (if kzalloc_fails env then None else Some (replicate n zero_entry))"

text \<open>
  A run of the function either returns, with a return value and the global pointer
  \<^verbatim>\<open>isp_fps_table\<close> as it leaves it, or stores through a null pointer.
\<close>

datatype init_outcome =
  Returned "errno + unit" "isp_fps_table list option"
| Null_Store

datatype fill_outcome =
  Filled "isp_fps_table list option" nat
| Fill_Null_Store

text \<open>
  The \<^verbatim>\<open>for\<close> loop over the ranges, with the variables \<^verbatim>\<open>last_fps\<close> and
  \<^verbatim>\<open>count\<close>. \<^verbatim>\<open>last_fps\<close> is an \<^verbatim>\<open>int\<close> that starts at -1; its comparison
  with the unsigned \<^verbatim>\<open>max_frequency\<close> compares the two 32-bit patterns. The three
  stores to \<^verbatim>\<open>isp_fps_table[count]\<close> set every field of the entry. \<open>count\<close> never
  exceeds the number of ranges already visited, so the index is inside the array of
  \<^verbatim>\<open>num_of_range + 1\<close> entries.
\<close>

fun fill_table ::
  "ect_ap_thermal_range list \<Rightarrow> isp_fps_table list option \<Rightarrow> uint \<Rightarrow> nat \<Rightarrow> fill_outcome" where
  "fill_table [] table last_fps count = Filled table count"
| "fill_table (r # rest) table last_fps count =
     (if last_fps = max_frequency r then fill_table rest table last_fps count
      else case table of
        None \<Rightarrow> Fill_Null_Store
      | Some tbl \<Rightarrow>
          fill_table rest
            (Some (tbl[count := \<lparr>flags = 0, driver_data = of_nat count, fps = max_frequency r\<rparr>]))
            (max_frequency r) (count + 1))"

text \<open>
  \<open>g\<close> is the global pointer \<^verbatim>\<open>isp_fps_table\<close> before the call. After the loop
  \<^verbatim>\<open>i == function->num_of_range\<close> holds, so the terminator is always stored.
\<close>

definition isp_cooling_table_init ::
  "isp_cooling_h \<Rightarrow> init_env \<Rightarrow> isp_fps_table list option \<Rightarrow> init_outcome" where
  "isp_cooling_table_init h env g =
     (if \<not> CONFIG_ECT env then Returned (Inl EINVAL) g
      else case thermal_block env of
        None \<Rightarrow> Returned (Inl ENODEV) g
      | Some block \<Rightarrow>
          (case ect_ap_thermal_get_function block ''ISP'' of
             None \<Rightarrow> Returned (Inl ENODEV) g
           | Some function \<Rightarrow>
               (case fill_table (range_list function)
                       (kzalloc env (num_of_range function + 1)) (- 1) 0 of
                  Fill_Null_Store \<Rightarrow> Null_Store
                | Filled table count \<Rightarrow>
                    (case table of
                       None \<Rightarrow> Null_Store
                     | Some tbl \<Rightarrow>
                         Returned (Inr ())
                           (Some (tbl[count := (tbl ! count)\<lparr>fps := ISP_FPS_TABLE_END h\<rparr>]))))))"

subsection \<open>The words of the specification\<close>

text \<open>
  The distinct fps values of a table: the fps of its valid entries, consecutive duplicates
  skipped.
\<close>

definition distinct_fps :: "isp_cooling_h \<Rightarrow> isp_fps_table list \<Rightarrow> uint list" where
  "distinct_fps h tbl = remdups_adj (map fps (valid_entries h tbl))"

text \<open>
  The sort direction as the specification words it: first distinct value greater than the
  second, and -1 (unknown) with fewer than two distinct values.
\<close>

definition spec_descend :: "uint list \<Rightarrow> int" where
  "spec_descend d =
     (case d of first # second # rest \<Rightarrow> if first > second then 1 else 0 | _ \<Rightarrow> - 1)"

text \<open>The variable \<^verbatim>\<open>descend\<close> of \<^verbatim>\<open>get_property\<close> after its first loop.\<close>

definition descend_of :: "isp_cooling_h \<Rightarrow> isp_fps_table list \<Rightarrow> int" where
  "descend_of h tbl =
     (case count_levels h (valid_entries h tbl) (ISP_FPS_ENTRY_INVALID h, - 1, 0) of
        (cur, descend, max_level) \<Rightarrow> descend)"

text \<open>A table with its consecutive duplicate fps entries removed, the first of each run kept.\<close>

fun remove_duplicates :: "isp_fps_table list \<Rightarrow> isp_fps_table list" where
  "remove_duplicates [] = []"
| "remove_duplicates [x] = [x]"
| "remove_duplicates (x # y # rest) =
     (if fps x = fps y then remove_duplicates (x # rest) else x # remove_duplicates (y # rest))"

text \<open>
  One frequency per run of consecutive ranges sharing the same max-frequency, the first of
  each run: what the specification says the table holds.
\<close>

definition collapsed_frequencies :: "ect_ap_thermal_range list \<Rightarrow> uint list" where
  "collapsed_frequencies rs = remdups_adj (map max_frequency rs)"

text \<open>
  The same after the leading ranges whose max-frequency is \<open>0xFFFFFFFF\<close> are dropped:
  that is the 32-bit pattern of -1, the value \<^verbatim>\<open>last_fps\<close> starts with.
\<close>

definition kept_frequencies :: "ect_ap_thermal_range list \<Rightarrow> uint list" where
  "kept_frequencies rs = remdups_adj (dropWhile (\<lambda>f. f = - 1) (map max_frequency rs))"

text \<open>The terminator entry, in an array that \<^verbatim>\<open>kzalloc\<close> has zeroed.\<close>

definition terminator :: "isp_cooling_h \<Rightarrow> isp_fps_table" where
  "terminator h = \<lparr>flags = 0, driver_data = 0, fps = ISP_FPS_TABLE_END h\<rparr>"

text \<open>
  The entries that table construction is to produce from a list of frequencies: the
  sequential index as identifier, flags clear.
\<close>

fun entries_from :: "nat \<Rightarrow> uint list \<Rightarrow> isp_fps_table list" where
  "entries_from c [] = []"
| "entries_from c (f # fs) =
     \<lparr>flags = 0, driver_data = of_nat c, fps = f\<rparr> # entries_from (c + 1) fs"

subsection \<open>Sample inputs\<close>

text \<open>
  Sample values of the header's constants and a table entry, for evaluating the functions on
  concrete tables.
\<close>

definition sample_h :: isp_cooling_h where
  "sample_h = \<lparr>ISP_FPS_ENTRY_INVALID = - 1, ISP_FPS_TABLE_END = - 2, ISP_FPS_INVALID = - 2,
     THERMAL_CSTATE_INVALID = - 1, ISP_THROTTLING = 2\<rparr>"

definition entry :: "uint \<Rightarrow> uint \<Rightarrow> isp_fps_table" where
  "entry f d = \<lparr>flags = 0, driver_data = d, fps = f\<rparr>"

text \<open>
  A device as \<^verbatim>\<open>__isp_cooling_register\<close> leaves it, a range of the configuration, and
  an environment whose thermal block holds the one function \<open>ISP\<close> with the given
  ranges.
\<close>

definition sample_device :: isp_cooling_device where
  "sample_device = \<lparr>isp_id = 0, isp_state = 0, isp_val = 0\<rparr>"

definition thermal_range :: "uint \<Rightarrow> uint \<Rightarrow> ect_ap_thermal_range" where
  "thermal_range t f = \<lparr>lower_bound_temperature = t, max_frequency = f\<rparr>"

definition sample_env :: "ect_ap_thermal_range list \<Rightarrow> bool \<Rightarrow> init_env" where
  "sample_env rs nomem =
     \<lparr>CONFIG_ECT = True,
      thermal_block = Some [\<lparr>function_name = ''ISP'', range_list = rs\<rparr>],
      kzalloc_fails = nomem\<rparr>"

text \<open>
  Three tables: the descending one of the specification's concrete scenario, an ascending
  one, and one with a single fps value. Each ends with the sentinel.
\<close>

definition scenario_table :: "isp_cooling_h \<Rightarrow> isp_fps_table list" where
  "scenario_table h = [entry 30 0, entry 15 1, entry 7 2, entry (ISP_FPS_TABLE_END h) 0]"

definition ascending_table :: "isp_cooling_h \<Rightarrow> isp_fps_table list" where
  "ascending_table h = [entry 10 0, entry 20 1, entry 30 2, entry (ISP_FPS_TABLE_END h) 0]"

definition single_table :: "isp_cooling_h \<Rightarrow> isp_fps_table list" where
  "single_table h = [entry 30 0, entry (ISP_FPS_TABLE_END h) 0]"

section \<open>The two loops of \<^verbatim>\<open>get_property\<close>\<close>

lemma valid_entries_not_invalid:
  "e \<in> set (valid_entries h tbl) \<Longrightarrow> fps e \<noteq> ISP_FPS_ENTRY_INVALID h"
  by (induction tbl) (auto split: if_splits)

lemma remdups_adj_Cons_tl: "remdups_adj (x # xs) = x # tl (remdups_adj (x # xs))"
proof -
  have "remdups_adj (x # xs) \<noteq> []" by simp
  moreover have "hd (remdups_adj (x # xs)) = x" by (simp only: hd_remdups_adj list.sel)
  ultimately show ?thesis by (metis list.collapse)
qed

lemma count_levels_known:
  "dsc \<noteq> -1 \<Longrightarrow>
   count_levels h xs (cur, dsc, n) =
     (last (cur # map fps xs), dsc, n + length (remdups_adj (cur # map fps xs)) - 1)"
  by (induction xs arbitrary: cur n) auto

lemma count_levels_unknown:
  "cur \<noteq> ISP_FPS_ENTRY_INVALID h \<Longrightarrow>
   count_levels h xs (cur, -1, n) =
     (last (cur # map fps xs), spec_descend (remdups_adj (cur # map fps xs)),
      n + length (remdups_adj (cur # map fps xs)) - 1)"
proof (induction xs arbitrary: n)
  case Nil
  show ?case by (simp add: spec_descend_def)
next
  case (Cons x xs)
  show ?case
  proof (cases "cur = fps x")
    case True
    with Cons show ?thesis by simp
  next
    case False
    define r where "r = tl (remdups_adj (fps x # map fps xs))"
    have r: "remdups_adj (fps x # map fps xs) = fps x # r"
      unfolding r_def by (rule remdups_adj_Cons_tl)
    from False Cons.prems r show ?thesis
      by (simp add: count_levels_known spec_descend_def)
  qed
qed

lemma count_levels_init:
  assumes "\<forall>e \<in> set xs. fps e \<noteq> ISP_FPS_ENTRY_INVALID h"
  shows "count_levels h xs (ISP_FPS_ENTRY_INVALID h, -1, 0) =
     (last (ISP_FPS_ENTRY_INVALID h # map fps xs), spec_descend (remdups_adj (map fps xs)),
      length (remdups_adj (map fps xs)))"
proof (cases xs)
  case Nil
  then show ?thesis by (simp add: spec_descend_def)
next
  case (Cons x r)
  with assms have nx: "fps x \<noteq> ISP_FPS_ENTRY_INVALID h" by simp
  define q where "q = tl (remdups_adj (fps x # map fps r))"
  have q: "remdups_adj (fps x # map fps r) = fps x # q"
    unfolding q_def by (rule remdups_adj_Cons_tl)
  from nx q show ?thesis unfolding Cons
    by (simp add: count_levels_unknown [OF nx] del: remdups_adj.simps)
qed

lemma ucast_fps_id: "(ucast (ucast f :: ulong) :: uint) = f"
  by (simp add: ucast_up_ucast_id is_up)

lemma find_entry_no_match:
  "f \<notin> fps ` set xs \<Longrightarrow>
   find_entry GET_LEVEL (ucast f) dsc m lvl xs cur i = Inl EINVAL"
  by (induction xs arbitrary: cur i) (auto simp: ucast_fps_id)

lemma ucast_level_out:
  "k \<le> m \<Longrightarrow> (ucast (of_nat m - of_nat k :: ulong) :: uint) = of_nat (m - k)"
  by (simp add: of_nat_diff [symmetric] unsigned_of_nat word_of_nat_eq_iff take_bit_take_bit
        del: of_nat_diff)

lemma ucast_pos_out: "(ucast (of_nat k :: ulong) :: uint) = of_nat k"
  by (simp add: unsigned_of_nat word_of_nat_eq_iff take_bit_take_bit)

lemma find_entry_level_hit:
  "k < length (tl (remdups_adj (cur # map fps xs))) \<Longrightarrow>
   tl (remdups_adj (cur # map fps xs)) ! k = f \<Longrightarrow>
   distinct (tl (remdups_adj (cur # map fps xs))) \<Longrightarrow>
   find_entry GET_LEVEL (ucast f) dsc m lvl xs cur i =
     Inr (ucast (if dsc \<noteq> 0 then (of_nat (i + k) :: ulong) else of_nat m - of_nat (i + k)))"
proof (induction xs arbitrary: cur i k)
  case Nil
  then show ?case by simp
next
  case (Cons x xs)
  show ?case
  proof (cases "cur = fps x")
    case True
    with Cons.prems Cons.IH [of k cur i] show ?thesis by simp
  next
    case False
    define r where "r = tl (remdups_adj (fps x # map fps xs))"
    have r: "remdups_adj (fps x # map fps xs) = fps x # r"
      unfolding r_def by (rule remdups_adj_Cons_tl)
    from False r have d2: "tl (remdups_adj (cur # map fps (x # xs))) = fps x # r"
      by simp
    show ?thesis
    proof (cases k)
      case 0
      with Cons.prems [unfolded d2] have "fps x = f" by simp
      with False 0 show ?thesis by (simp add: ucast_fps_id)
    next
      case (Suc j)
      from Cons.prems [unfolded d2] Suc
      have j: "j < length r" "r ! j = f" "distinct r" "f \<noteq> fps x"
        by (auto simp: in_set_conv_nth)
      from j have "find_entry GET_LEVEL (ucast f) dsc m lvl xs (fps x) (i + 1) =
         Inr (ucast (if dsc \<noteq> 0 then (of_nat (i + 1 + j) :: ulong) else of_nat m - of_nat (i + 1 + j)))"
        unfolding r_def by (intro Cons.IH) simp_all
      with False j Suc show ?thesis by (simp add: ucast_fps_id)
    qed
  qed
qed

lemma count_levels_remove_duplicates:
  "count_levels h (valid_entries h (remove_duplicates tbl)) s =
   count_levels h (valid_entries h tbl) s"
proof (induction tbl arbitrary: s rule: remove_duplicates.induct)
  case 1
  show ?case by simp
next
  case (2 x)
  show ?case by simp
next
  case (3 x y rest)
  show ?case
  proof (cases "fps x = fps y")
    case True
    have "count_levels h (valid_entries h (x # y # rest)) s =
          count_levels h (valid_entries h (x # rest)) s"
      using True by (cases s) simp
    with True 3(1) show ?thesis by simp
  next
    case False
    with 3(2) show ?thesis by (cases s) simp
  qed
qed

lemma find_entry_remove_duplicates:
  "find_entry p inp dsc m lvl (valid_entries h (remove_duplicates tbl)) cur i =
   find_entry p inp dsc m lvl (valid_entries h tbl) cur i"
proof (induction tbl arbitrary: cur i rule: remove_duplicates.induct)
  case 1
  show ?case by simp
next
  case (2 x)
  show ?case by simp
next
  case (3 x y rest)
  show ?case
  proof (cases "fps x = fps y")
    case True
    have "find_entry p inp dsc m lvl (valid_entries h (x # y # rest)) cur i =
          find_entry p inp dsc m lvl (valid_entries h (x # rest)) cur i"
      using True by simp
    with True 3(1) show ?thesis by simp
  next
    case False
    with 3(2) show ?thesis by simp
  qed
qed

lemma find_entry_all_same:
  "\<forall>e \<in> set xs. fps e = cur \<Longrightarrow> find_entry p inp dsc m lvl xs cur i = Inl EINVAL"
  by (induction xs) auto

lemma count_levels_table:
  "count_levels h (valid_entries h tbl) (ISP_FPS_ENTRY_INVALID h, - 1, 0) =
     (last (ISP_FPS_ENTRY_INVALID h # map fps (valid_entries h tbl)),
      spec_descend (distinct_fps h tbl), length (distinct_fps h tbl))"
  unfolding distinct_fps_def
  by (rule count_levels_init) (simp add: valid_entries_not_invalid)

lemma descend_of_spec: "descend_of h tbl = spec_descend (distinct_fps h tbl)"
  by (simp add: descend_of_def count_levels_table)

lemma get_maxl_table:
  "distinct_fps h tbl \<noteq> [] \<Longrightarrow>
   get_property h (Some tbl) isp x True GET_MAXL = Inr (of_nat (length (distinct_fps h tbl) - 1))"
  by (simp add: get_property_def count_levels_table)

lemma get_level_no_match:
  "f \<notin> set (distinct_fps h tbl) \<Longrightarrow>
   get_property h (Some tbl) isp (ucast f) True GET_LEVEL = Inl EINVAL"
  by (simp add: get_property_def count_levels_table distinct_fps_def find_entry_no_match)

lemma tl_remdups_adj_other:
  "fs \<noteq> [] \<Longrightarrow> c \<noteq> hd fs \<Longrightarrow> tl (remdups_adj (c # fs)) = remdups_adj fs"
  by (cases fs) simp_all

lemma distinct_hd_last: "distinct d \<Longrightarrow> 2 \<le> length d \<Longrightarrow> last d \<noteq> hd d"
proof -
  assume d: "distinct d" "2 \<le> length d"
  then have "d \<noteq> []" by auto
  then have "last d = d ! (length d - 1)" "hd d = d ! 0"
    by (simp_all add: last_conv_nth hd_conv_nth)
  moreover from d have "d ! (length d - 1) \<noteq> d ! 0"
    by (subst nth_eq_iff_index_eq) auto
  ultimately show ?thesis by simp
qed

lemma get_level_distinct:
  assumes d: "distinct (distinct_fps h tbl)" "2 \<le> length (distinct_fps h tbl)"
    and i: "i < length (distinct_fps h tbl)" "distinct_fps h tbl ! i = f"
  shows "get_property h (Some tbl) isp (ucast f) True GET_LEVEL =
     Inr (ucast (if descend_of h tbl \<noteq> 0 then (of_nat i :: ulong)
                 else of_nat (length (distinct_fps h tbl) - 1) - of_nat i))"
proof -
  let ?fs = "map fps (valid_entries h tbl)"
  have dfs: "distinct_fps h tbl = remdups_adj ?fs" by (simp add: distinct_fps_def)
  from d have ne: "?fs \<noteq> []" by (auto simp: dfs)
  have "last ?fs \<noteq> hd ?fs" using distinct_hd_last [OF d] by (simp add: dfs)
  with ne have t: "tl (remdups_adj (last ?fs # ?fs)) = distinct_fps h tbl"
    unfolding dfs by (rule tl_remdups_adj_other)
  have "find_entry GET_LEVEL (ucast f) (descend_of h tbl) (length (distinct_fps h tbl) - 1)
          (scast (ucast (ucast f :: ulong) :: uint)) (valid_entries h tbl) (last ?fs) 0 =
        Inr (ucast (if descend_of h tbl \<noteq> 0 then (of_nat (0 + i) :: ulong)
                 else of_nat (length (distinct_fps h tbl) - 1) - of_nat (0 + i)))"
    using i d by (intro find_entry_level_hit) (simp_all only: t)
  moreover from d have "length (distinct_fps h tbl) \<noteq> 0" by auto
  ultimately show ?thesis using ne
    by (simp add: get_property_def count_levels_table descend_of_spec)
qed

lemma sorted_wrt_less_distinct:
  fixes d :: "uint list"
  shows "sorted_wrt (<) d \<Longrightarrow> distinct d"
  by (induction d) auto

lemma sorted_wrt_greater_distinct:
  fixes d :: "uint list"
  shows "sorted_wrt (\<lambda>a b. a > b) d \<Longrightarrow> distinct d"
  by (induction d) auto

lemma spec_descend_descending:
  "2 \<le> length d \<Longrightarrow> sorted_wrt (\<lambda>a b. a > b) d \<Longrightarrow> spec_descend d = 1"
  by (cases d; cases "tl d") (auto simp: spec_descend_def)

lemma spec_descend_ascending:
  "2 \<le> length d \<Longrightarrow> sorted_wrt (<) d \<Longrightarrow> spec_descend d = 0"
  by (cases d; cases "tl d") (auto simp: spec_descend_def)

lemma spec_descend_short: "length d < 2 \<Longrightarrow> spec_descend d = - 1"
  by (cases d; cases "tl d") (auto simp: spec_descend_def)

lemma distinct_fps_scenario: "distinct_fps sample_h (scenario_table sample_h) = [30, 15, 7]"
  by (simp add: distinct_fps_def scenario_table_def sample_h_def entry_def)

lemma distinct_fps_ascending: "distinct_fps sample_h (ascending_table sample_h) = [10, 20, 30]"
  by (simp add: distinct_fps_def ascending_table_def sample_h_def entry_def)

lemma distinct_fps_single: "distinct_fps sample_h (single_table sample_h) = [30]"
  by (simp add: distinct_fps_def single_table_def sample_h_def entry_def)

lemma get_property_Some:
  "get_property h (Some tbl) isp input True property =
     (case count_levels h (valid_entries h tbl) (ISP_FPS_ENTRY_INVALID h, - 1, 0) of
        (cur, descend, max_level) \<Rightarrow>
          if max_level = 0 then Inl EINVAL
          else if property = GET_MAXL then Inr (of_nat (max_level - 1))
          else find_entry property input descend (max_level - 1)
                 (scast (ucast input :: uint)) (valid_entries h tbl) cur 0)"
  by (simp add: get_property_def)

lemma level_to_fps_truncates:
  "get_property sample_h (Some (scenario_table sample_h)) 0 0x100000000 True GET_FPS = Inr 30"
  by (simp add: get_property_def scenario_table_def sample_h_def entry_def)

subsection \<open>The fps of a level, where the table has two distinct values or more\<close>

text \<open>
  When the distinct values of a table are pairwise different and at least two, the second
  loop meets them all, in table order: a level below \<open>2 ^ 31\<close> is answered with the
  value at that position, or with \<open>EINVAL\<close> when there is no such position. On a
  descending table the two translations are then inverse to each other.
\<close>

lemma of_nat_ulong_neq:
  "a < 2 ^ 64 \<Longrightarrow> b < 2 ^ 64 \<Longrightarrow> a \<noteq> b \<Longrightarrow> (of_nat a :: ulong) \<noteq> of_nat b"
  by (simp add: word_of_nat_eq_iff take_bit_nat_eq_self)

lemma level_of_small:
  "L < 2 ^ 31 \<Longrightarrow> (scast (ucast (of_nat L :: ulong) :: uint) :: ulong) = of_nat L"
proof -
  assume L: "L < 2 ^ 31"
  have u: "(ucast (of_nat L :: ulong) :: uint) = of_nat L" by (rule ucast_pos_out)
  have "sint (of_nat L :: uint) = int L"
    using L by (simp add: signed_of_nat signed_take_bit_int_eq_self)
  then have "(scast (of_nat L :: uint) :: ulong) = of_int (int L)"
    by (simp add: scast_eq)
  then show ?thesis by (simp add: u)
qed

lemma find_entry_fps_hit:
  "k < length (tl (remdups_adj (cur # map fps xs))) \<Longrightarrow> i + k < 2 ^ 64 \<Longrightarrow>
   find_entry GET_FPS input dsc m (of_nat (i + k)) xs cur i =
     Inr (tl (remdups_adj (cur # map fps xs)) ! k)"
proof (induction xs arbitrary: cur i k)
  case Nil
  then show ?case by simp
next
  case (Cons x xs)
  show ?case
  proof (cases "cur = fps x")
    case True
    with Cons.prems Cons.IH [of k cur i] show ?thesis by simp
  next
    case False
    define r where "r = tl (remdups_adj (fps x # map fps xs))"
    have r: "remdups_adj (fps x # map fps xs) = fps x # r"
      unfolding r_def by (rule remdups_adj_Cons_tl)
    from False r have d2: "tl (remdups_adj (cur # map fps (x # xs))) = fps x # r"
      by simp
    show ?thesis
    proof (cases k)
      case 0
      with False show ?thesis unfolding d2 by simp
    next
      case (Suc j)
      from Cons.prems [unfolded d2] Suc have j: "j < length r" "i + 1 + j < 2 ^ 64"
        by auto
      then have "find_entry GET_FPS input dsc m (of_nat (i + 1 + j)) xs (fps x) (i + 1) =
         Inr (r ! j)"
        unfolding r_def by (intro Cons.IH) simp_all
      moreover from j Suc have "(of_nat (i + k) :: ulong) \<noteq> of_nat i"
        by (intro of_nat_ulong_neq) simp_all
      ultimately show ?thesis using False Suc unfolding d2 by simp
    qed
  qed
qed

lemma find_entry_fps_miss:
  "\<forall>j < length (tl (remdups_adj (cur # map fps xs))). level \<noteq> of_nat (i + j) \<Longrightarrow>
   find_entry GET_FPS input dsc m level xs cur i = Inl EINVAL"
proof (induction xs arbitrary: cur i)
  case Nil
  then show ?case by simp
next
  case (Cons x xs)
  show ?case
  proof (cases "cur = fps x")
    case True
    with Cons.prems Cons.IH [of cur i] show ?thesis by simp
  next
    case False
    define r where "r = tl (remdups_adj (fps x # map fps xs))"
    have r: "remdups_adj (fps x # map fps xs) = fps x # r"
      unfolding r_def by (rule remdups_adj_Cons_tl)
    from False r have d2: "tl (remdups_adj (cur # map fps (x # xs))) = fps x # r"
      by simp
    from Cons.prems [unfolded d2] have 0: "level \<noteq> of_nat i" by auto
    from Cons.prems [unfolded d2] have "\<forall>j < length r. level \<noteq> of_nat (i + 1 + j)"
      by auto
    then have "find_entry GET_FPS input dsc m level xs (fps x) (i + 1) = Inl EINVAL"
      unfolding r_def by (intro Cons.IH)
    with False 0 show ?thesis by simp
  qed
qed

lemma get_fps_distinct:
  assumes d: "distinct (distinct_fps h tbl)" "2 \<le> length (distinct_fps h tbl)"
    and L: "L < length (distinct_fps h tbl)" "L < 2 ^ 31"
  shows "get_property h (Some tbl) isp (of_nat L) True GET_FPS = Inr (distinct_fps h tbl ! L)"
proof -
  let ?fs = "map fps (valid_entries h tbl)"
  have dfs: "distinct_fps h tbl = remdups_adj ?fs" by (simp add: distinct_fps_def)
  from d have ne: "?fs \<noteq> []" by (auto simp: dfs)
  have "last ?fs \<noteq> hd ?fs" using distinct_hd_last [OF d] by (simp add: dfs)
  with ne have t: "tl (remdups_adj (last ?fs # ?fs)) = distinct_fps h tbl"
    unfolding dfs by (rule tl_remdups_adj_other)
  from L have "0 + L < (2 :: nat) ^ 64"
    by (simp add: order_less_trans [where y = "2 ^ 31"])
  with L have "find_entry GET_FPS (of_nat L) (descend_of h tbl) (length (distinct_fps h tbl) - 1)
          (of_nat (0 + L)) (valid_entries h tbl) (last ?fs) 0 =
        Inr (tl (remdups_adj (last ?fs # ?fs)) ! L)"
    by (intro find_entry_fps_hit) (simp_all only: t)
  moreover from d have "length (distinct_fps h tbl) \<noteq> 0" by auto
  ultimately show ?thesis using ne L
    by (simp add: get_property_Some count_levels_table descend_of_spec level_of_small t)
qed

lemma get_fps_above:
  assumes d: "distinct (distinct_fps h tbl)" "2 \<le> length (distinct_fps h tbl)"
    and L: "length (distinct_fps h tbl) \<le> L" "L < 2 ^ 31"
  shows "get_property h (Some tbl) isp (of_nat L) True GET_FPS = Inl EINVAL"
proof -
  let ?fs = "map fps (valid_entries h tbl)"
  have dfs: "distinct_fps h tbl = remdups_adj ?fs" by (simp add: distinct_fps_def)
  from d have ne: "?fs \<noteq> []" by (auto simp: dfs)
  have "last ?fs \<noteq> hd ?fs" using distinct_hd_last [OF d] by (simp add: dfs)
  with ne have t: "tl (remdups_adj (last ?fs # ?fs)) = distinct_fps h tbl"
    unfolding dfs by (rule tl_remdups_adj_other)
  from L have big: "L < (2 :: nat) ^ 64"
    by (simp add: order_less_trans [where y = "2 ^ 31"])
  have "\<forall>j < length (tl (remdups_adj (last ?fs # ?fs))). (of_nat L :: ulong) \<noteq> of_nat (0 + j)"
  proof (intro allI impI)
    fix j assume "j < length (tl (remdups_adj (last ?fs # ?fs)))"
    with L have "j < L" by (simp only: t)
    with big show "(of_nat L :: ulong) \<noteq> of_nat (0 + j)"
      by (intro of_nat_ulong_neq) simp_all
  qed
  then have "find_entry GET_FPS (of_nat L) (descend_of h tbl) (length (distinct_fps h tbl) - 1)
          (of_nat L) (valid_entries h tbl) (last ?fs) 0 = Inl EINVAL"
    by (rule find_entry_fps_miss)
  moreover from d have "length (distinct_fps h tbl) \<noteq> 0" by auto
  ultimately show ?thesis using ne L
    by (simp add: get_property_Some count_levels_table descend_of_spec level_of_small)
qed

lemma round_trip_descending:
  assumes "2 \<le> length (distinct_fps h tbl)"
    and "sorted_wrt (\<lambda>a b. a > b) (distinct_fps h tbl)"
    and "L < length (distinct_fps h tbl)" and "L < 2 ^ 31"
  shows "get_property h (Some tbl) isp (of_nat L) True GET_FPS = Inr (distinct_fps h tbl ! L) \<and>
         get_property h (Some tbl) isp (ucast (distinct_fps h tbl ! L)) True GET_LEVEL =
           Inr (of_nat L)"
proof -
  from assms(2) have dis: "distinct (distinct_fps h tbl)" by (rule sorted_wrt_greater_distinct)
  have dsc: "descend_of h tbl = 1"
    using assms by (simp add: descend_of_spec spec_descend_descending)
  have "get_property h (Some tbl) isp (ucast (distinct_fps h tbl ! L)) True GET_LEVEL =
     Inr (ucast (if descend_of h tbl \<noteq> 0 then (of_nat L :: ulong)
                 else of_nat (length (distinct_fps h tbl) - 1) - of_nat L))"
    using dis assms by (intro get_level_distinct) simp_all
  then show ?thesis
    using get_fps_distinct [OF dis assms(1) assms(3) assms(4)] by (simp add: dsc ucast_pos_out)
qed

section \<open>State apply and table construction\<close>

lemma ucast_state_small:
  "state < 2 ^ 32 \<Longrightarrow> (ucast (ucast (state :: ulong) :: uint) :: ulong) = state"
  by (simp add: unsigned_ucast_eq take_bit_eq_mask less_mask_eq)

lemma length_entries_from: "length (entries_from c fs) = length fs"
  by (induction fs arbitrary: c) simp_all

lemma fill_table_Some:
  "length pre = count \<Longrightarrow> length rs \<le> z \<Longrightarrow>
   fill_table rs (Some (pre @ replicate z zero_entry)) last_fps count =
     Filled
       (Some (pre @ entries_from count (tl (remdups_adj (last_fps # map max_frequency rs))) @
          replicate (z - length (tl (remdups_adj (last_fps # map max_frequency rs)))) zero_entry))
       (count + length (tl (remdups_adj (last_fps # map max_frequency rs))))"
proof (induction rs arbitrary: pre count z last_fps)
  case Nil
  then show ?case by simp
next
  case (Cons r rs)
  show ?case
  proof (cases "last_fps = max_frequency r")
    case True
    with Cons.prems Cons.IH [of pre count z last_fps] show ?thesis by simp
  next
    case False
    define e where "e = \<lparr>flags = 0, driver_data = of_nat count, fps = max_frequency r\<rparr>"
    define k where "k = tl (remdups_adj (max_frequency r # map max_frequency rs))"
    from Cons.prems obtain z' where z: "z = Suc z'" by (cases z) auto
    have upd: "(pre @ replicate z zero_entry)[count := e] = (pre @ [e]) @ replicate z' zero_entry"
      using Cons.prems(1) by (simp add: z list_update_append)
    have kept: "tl (remdups_adj (last_fps # map max_frequency (r # rs))) = max_frequency r # k"
      using False by (simp add: k_def)
    have ih: "fill_table rs (Some ((pre @ [e]) @ replicate z' zero_entry)) (max_frequency r)
        (count + 1) =
      Filled (Some ((pre @ [e]) @ entries_from (count + 1) k @ replicate (z' - length k) zero_entry))
        (count + 1 + length k)"
      unfolding k_def using Cons.prems by (intro Cons.IH) (simp_all add: z)
    have "fill_table (r # rs) (Some (pre @ replicate z zero_entry)) last_fps count =
        fill_table rs (Some ((pre @ replicate z zero_entry)[count := e])) (max_frequency r)
          (count + 1)"
      using False by (simp add: e_def)
    also have "\<dots> = Filled
        (Some ((pre @ [e]) @ entries_from (count + 1) k @ replicate (z' - length k) zero_entry))
        (count + 1 + length k)"
      by (simp only: upd ih)
    also have "\<dots> = Filled
        (Some (pre @ entries_from count (max_frequency r # k) @
           replicate (z - length (max_frequency r # k)) zero_entry))
        (count + length (max_frequency r # k))"
      by (simp add: z e_def)
    finally show ?thesis by (simp only: kept)
  qed
qed

lemma tl_remdups_adj_dropWhile:
  "tl (remdups_adj (c # fs)) = remdups_adj (dropWhile (\<lambda>f. f = c) fs)"
  by (simp add: remdups_adj_Cons')

lemma fill_table_None:
  "fill_table rs None last_fps count = Fill_Null_Store \<or> fill_table rs None last_fps count = Filled None count"
  by (induction rs) auto

lemma table_init_found:
  assumes "CONFIG_ECT env" and "thermal_block env = Some block"
    and "ect_ap_thermal_get_function block ''ISP'' = Some function"
  shows "isp_cooling_table_init h env g =
     (case fill_table (range_list function) (kzalloc env (num_of_range function + 1)) (- 1) 0 of
        Fill_Null_Store \<Rightarrow> Null_Store
      | Filled table count \<Rightarrow>
          (case table of
             None \<Rightarrow> Null_Store
           | Some tbl \<Rightarrow>
               Returned (Inr ())
                 (Some (tbl[count := (tbl ! count)\<lparr>fps := ISP_FPS_TABLE_END h\<rparr>]))))"
  using assms by (simp add: isp_cooling_table_init_def)

lemma table_init_no_memory:
  assumes "CONFIG_ECT env" and "thermal_block env = Some block"
    and "ect_ap_thermal_get_function block ''ISP'' = Some function"
    and "kzalloc_fails env"
  shows "isp_cooling_table_init h env g = Null_Store"
  using assms fill_table_None [of "range_list function" "- 1" 0]
  by (auto simp: isp_cooling_table_init_def kzalloc_def)

lemma table_init_success:
  assumes "CONFIG_ECT env" and "thermal_block env = Some block"
    and "ect_ap_thermal_get_function block ''ISP'' = Some function"
    and "\<not> kzalloc_fails env"
  shows "isp_cooling_table_init h env g =
     Returned (Inr ())
       (Some (entries_from 0 (kept_frequencies (range_list function)) @ [terminator h] @
          replicate (num_of_range function - length (kept_frequencies (range_list function)))
            zero_entry))"
proof -
  let ?rs = "range_list function"
  let ?k = "kept_frequencies ?rs"
  have k: "tl (remdups_adj (- 1 # map max_frequency ?rs)) = ?k"
    by (simp only: tl_remdups_adj_dropWhile kept_frequencies_def)
  have len: "length ?k \<le> length ?rs"
  proof -
    have "length ?k \<le> length (dropWhile (\<lambda>f. f = - 1) (map max_frequency ?rs))"
      unfolding kept_frequencies_def by (rule remdups_adj_length)
    also have "\<dots> \<le> length (map max_frequency ?rs)" by (rule length_dropWhile_le)
    finally show ?thesis by simp
  qed
  have "fill_table ?rs (Some ([] @ replicate (length ?rs + 1) zero_entry)) (- 1) 0 =
     Filled (Some ([] @ entries_from 0 ?k @ replicate (length ?rs + 1 - length ?k) zero_entry))
       (0 + length ?k)"
    unfolding k [symmetric] by (rule fill_table_Some) simp_all
  moreover from len obtain n where n: "length ?rs + 1 - length ?k = Suc n" "n = length ?rs - length ?k"
    by (metis Suc_diff_le Suc_eq_plus1)
  ultimately have f: "fill_table ?rs (kzalloc env (num_of_range function + 1)) (- 1) 0 =
     Filled (Some (entries_from 0 ?k @ replicate (Suc n) zero_entry)) (length ?k)"
    using assms(4) by (simp add: kzalloc_def num_of_range_def)
  have t: "zero_entry\<lparr>fps := ISP_FPS_TABLE_END h\<rparr> = terminator h"
    by (simp add: zero_entry_def terminator_def)
  have "isp_cooling_table_init h env g =
     Returned (Inr ())
       (Some ((entries_from 0 ?k @ replicate (Suc n) zero_entry)
          [length ?k := ((entries_from 0 ?k @ replicate (Suc n) zero_entry) ! length ?k)
             \<lparr>fps := ISP_FPS_TABLE_END h\<rparr>]))"
    unfolding table_init_found [OF assms(1-3)] f by simp
  then show ?thesis
    by (simp add: nth_append list_update_append length_entries_from t n num_of_range_def)
qed

section \<open>The claims\<close>

text \<open>
  C1. The round trip: for every level \<open>L\<close> from 0 to the maximum level, the level of
  the fps of \<open>L\<close> is \<open>L\<close> again. The code breaks it on the ascending table
  \<open>[(10, 0), (20, 1), (30, 2), END]\<close>: the maximum level is 2, level 0 gives fps 10, and
  fps 10 gives level 2, through \<^verbatim>\<open>get_property\<close> and through the two exported
  functions alike. \<^verbatim>\<open>GET_LEVEL\<close> counts from the far end of an ascending table,
  \<^verbatim>\<open>GET_FPS\<close> does not. (On a descending table the round trip holds:
  \<open>round_trip_descending\<close>.)
\<close>

theorem round_trip_fails_ascending:
  "get_property sample_h (Some (ascending_table sample_h)) 0 0 True GET_MAXL = Inr 2 \<and>
   get_property sample_h (Some (ascending_table sample_h)) 0 0 True GET_FPS = Inr 10 \<and>
   get_property sample_h (Some (ascending_table sample_h)) 0 10 True GET_LEVEL = Inr 2 \<and>
   isp_cooling_get_level sample_h (Some (ascending_table sample_h)) 0
     (ucast (isp_cooling_get_fps sample_h (Some (ascending_table sample_h)) 0 0)) = 2 \<and>
   isp_cooling_get_level sample_h (Some (ascending_table sample_h)) 0
     (ucast (isp_cooling_get_fps sample_h (Some (ascending_table sample_h)) 0 0)) \<noteq> 0"
  by (simp add: get_property_def isp_cooling_get_level_def isp_cooling_get_fps_def
      ascending_table_def sample_h_def entry_def)

text \<open>
  C2, as the claim states it. A new level that differs from the current one becomes the
  current level. With the current level 0 and the new level \<open>0x100000005\<close> the call
  succeeds, and the current level is then 5, not the new level: the field
  \<^verbatim>\<open>isp_state\<close> is 32 bits wide.
\<close>

theorem set_cur_state_truncates:
  "(ucast (isp_state sample_device) :: ulong) \<noteq> 0x100000005 \<and>
   fst (isp_set_cur_state sample_h sample_device 0x100000005 []) = Inr () \<and>
   isp_state (fst (snd (isp_set_cur_state sample_h sample_device 0x100000005 []))) = 5 \<and>
   (ucast (isp_state (fst (snd (isp_set_cur_state sample_h sample_device 0x100000005 [])))) :: ulong)
     \<noteq> 0x100000005"
  by (simp add: isp_set_cur_state_def isp_apply_cooling_def sample_device_def)

text \<open>
  C2, amended. Setting the state to the current level (compared as \<^verbatim>\<open>unsigned long\<close>)
  changes nothing, notifies nobody and returns 0. Setting it to another value stores the value
  cut to 32 bits, makes exactly one \<^verbatim>\<open>ISP_THROTTLING\<close> notification, which carries the
  uncut value, and returns 0; below \<open>2 ^ 32\<close> the stored level is the new level itself.
  The return value is 0 for every new level: nothing compares it with the maximum level.
\<close>

theorem set_cur_state_apply:
  "(ucast (isp_state dev) = state \<longrightarrow>
      isp_set_cur_state h dev state chain = (Inr (), dev, chain)) \<and>
   (ucast (isp_state dev) \<noteq> state \<longrightarrow>
      isp_set_cur_state h dev state chain =
        (Inr (), dev\<lparr>isp_state := ucast state\<rparr>, chain @ [(ISP_THROTTLING h, state)])) \<and>
   (ucast (isp_state dev) \<noteq> state \<and> state < 2 ^ 32 \<longrightarrow>
      ucast (isp_state (fst (snd (isp_set_cur_state h dev state chain)))) = state) \<and>
   fst (isp_set_cur_state h dev state chain) = Inr ()"
  by (simp add: isp_set_cur_state_def isp_apply_cooling_def ucast_state_small)

text \<open>
  C2, at concrete inputs. The theorem on a fresh device: the level 0 set again, and the
  level 3 set.
\<close>

theorem set_cur_state_apply_witness:
  "isp_set_cur_state sample_h sample_device 0 [] = (Inr (), sample_device, []) \<and>
   isp_set_cur_state sample_h sample_device 3 [] =
     (Inr (), sample_device\<lparr>isp_state := 3\<rparr>, [(ISP_THROTTLING sample_h, 3)]) \<and>
   (ucast (isp_state (fst (snd (isp_set_cur_state sample_h sample_device 3 [])))) :: ulong) = 3"
  using set_cur_state_apply [of sample_device 0 sample_h "[]"]
    set_cur_state_apply [of sample_device 3 sample_h "[]"]
  by (simp add: sample_device_def)

text \<open>
  C3. Translating an fps value to a level (\<^verbatim>\<open>get_property\<close> with
  \<^verbatim>\<open>GET_LEVEL\<close>, called as \<^verbatim>\<open>isp_cooling_get_level\<close> calls it). The sort
  direction \<^verbatim>\<open>descend\<close> is fixed once, as (first distinct fps > second distinct fps),
  and is -1 when the table has fewer than two distinct values. When the requested fps is the
  distinct value at position \<open>i\<close>, the level is \<open>i\<close> if the table is descending
  and (maximum level - \<open>i\<close>) if it is ascending, the maximum level being the number of
  distinct values less one (\<open>get_maxl_table\<close>). When no distinct value equals the requested
  fps, the call fails with \<open>EINVAL\<close>. A table is descending (ascending) when it has at
  least two distinct values and each is greater (less) than the next.
\<close>

theorem fps_to_level:
  "descend_of h tbl = spec_descend (distinct_fps h tbl) \<and>
   (length (distinct_fps h tbl) < 2 \<longrightarrow> descend_of h tbl = - 1) \<and>
   (2 \<le> length (distinct_fps h tbl) \<and> sorted_wrt (\<lambda>a b. a > b) (distinct_fps h tbl) \<and>
    i < length (distinct_fps h tbl) \<and> distinct_fps h tbl ! i = f \<longrightarrow>
      descend_of h tbl = 1 \<and>
      get_property h (Some tbl) isp (ucast f) True GET_LEVEL = Inr (of_nat i)) \<and>
   (2 \<le> length (distinct_fps h tbl) \<and> sorted_wrt (<) (distinct_fps h tbl) \<and>
    i < length (distinct_fps h tbl) \<and> distinct_fps h tbl ! i = f \<longrightarrow>
      descend_of h tbl = 0 \<and>
      get_property h (Some tbl) isp (ucast f) True GET_LEVEL =
        Inr (of_nat (length (distinct_fps h tbl) - 1 - i))) \<and>
   (f \<notin> set (distinct_fps h tbl) \<longrightarrow>
      get_property h (Some tbl) isp (ucast f) True GET_LEVEL = Inl EINVAL)"
proof (intro conjI impI)
  show "descend_of h tbl = spec_descend (distinct_fps h tbl)"
    by (rule descend_of_spec)
next
  assume "length (distinct_fps h tbl) < 2"
  then show "descend_of h tbl = - 1"
    by (simp add: descend_of_spec spec_descend_short)
next
  assume a: "2 \<le> length (distinct_fps h tbl) \<and>
    sorted_wrt (\<lambda>a b. a > b) (distinct_fps h tbl) \<and>
    i < length (distinct_fps h tbl) \<and> distinct_fps h tbl ! i = f"
  then show dsc: "descend_of h tbl = 1"
    by (simp add: descend_of_spec spec_descend_descending)
  from a have "distinct (distinct_fps h tbl)"
    by (simp add: sorted_wrt_greater_distinct)
  with a have "get_property h (Some tbl) isp (ucast f) True GET_LEVEL =
     Inr (ucast (if descend_of h tbl \<noteq> 0 then (of_nat i :: ulong)
                 else of_nat (length (distinct_fps h tbl) - 1) - of_nat i))"
    by (intro get_level_distinct) simp_all
  then show "get_property h (Some tbl) isp (ucast f) True GET_LEVEL = Inr (of_nat i)"
    by (simp add: dsc ucast_pos_out)
next
  assume a: "2 \<le> length (distinct_fps h tbl) \<and> sorted_wrt (<) (distinct_fps h tbl) \<and>
    i < length (distinct_fps h tbl) \<and> distinct_fps h tbl ! i = f"
  then show dsc: "descend_of h tbl = 0"
    by (simp add: descend_of_spec spec_descend_ascending)
  from a have "distinct (distinct_fps h tbl)"
    by (simp add: sorted_wrt_less_distinct)
  with a have "get_property h (Some tbl) isp (ucast f) True GET_LEVEL =
     Inr (ucast (if descend_of h tbl \<noteq> 0 then (of_nat i :: ulong)
                 else of_nat (length (distinct_fps h tbl) - 1) - of_nat i))"
    by (intro get_level_distinct) simp_all
  moreover from a have "i \<le> length (distinct_fps h tbl) - 1" by arith
  ultimately show "get_property h (Some tbl) isp (ucast f) True GET_LEVEL =
        Inr (of_nat (length (distinct_fps h tbl) - 1 - i))"
    by (simp add: dsc ucast_level_out)
next
  assume "f \<notin> set (distinct_fps h tbl)"
  then show "get_property h (Some tbl) isp (ucast f) True GET_LEVEL = Inl EINVAL"
    by (rule get_level_no_match)
qed

text \<open>
  C3, at concrete inputs. The theorem at a one-value table, at the descending table (fps 15
  at position 1, and fps 24, which is absent) and at the ascending table (fps 10 at
  position 0).
\<close>

theorem fps_to_level_witness:
  "descend_of sample_h (single_table sample_h) = - 1 \<and>
   descend_of sample_h (scenario_table sample_h) = 1 \<and>
   get_property sample_h (Some (scenario_table sample_h)) 0 (ucast (15 :: uint)) True GET_LEVEL = Inr 1 \<and>
   descend_of sample_h (ascending_table sample_h) = 0 \<and>
   get_property sample_h (Some (ascending_table sample_h)) 0 (ucast (10 :: uint)) True GET_LEVEL = Inr 2 \<and>
   get_property sample_h (Some (scenario_table sample_h)) 0 (ucast (24 :: uint)) True GET_LEVEL = Inl EINVAL"
  using fps_to_level [where h = sample_h and tbl = "single_table sample_h"]
    fps_to_level [where h = sample_h and tbl = "scenario_table sample_h" and i = 1 and f = 15
      and isp = 0]
    fps_to_level [where h = sample_h and tbl = "ascending_table sample_h" and i = 0 and f = 10
      and isp = 0]
    fps_to_level [where h = sample_h and tbl = "scenario_table sample_h" and f = 24 and isp = 0]
  by (simp add: distinct_fps_scenario distinct_fps_ascending distinct_fps_single spec_descend_def)

text \<open>
  C4. On the descending table \<open>[(30, 0), (15, 1), (7, 2), END]\<close> the maximum level is 2,
  fps 30 is level 0, fps 7 is level 2, level 0 is fps 30 and level 2 is fps 7; both through
  \<^verbatim>\<open>get_property\<close> and through the two exported functions. The reserved values of the
  header are taken to differ from the three fps values of the table.
\<close>

theorem descending_scenario:
  assumes "ISP_FPS_TABLE_END h \<notin> {30, 15, 7}" and "ISP_FPS_ENTRY_INVALID h \<notin> {30, 15, 7}"
  shows "get_property h (Some (scenario_table h)) isp x True GET_MAXL = Inr 2 \<and>
         get_property h (Some (scenario_table h)) isp 30 True GET_LEVEL = Inr 0 \<and>
         get_property h (Some (scenario_table h)) isp 7 True GET_LEVEL = Inr 2 \<and>
         get_property h (Some (scenario_table h)) isp 0 True GET_FPS = Inr 30 \<and>
         get_property h (Some (scenario_table h)) isp 2 True GET_FPS = Inr 7 \<and>
         isp_cooling_get_level h (Some (scenario_table h)) isp 30 = 0 \<and>
         isp_cooling_get_level h (Some (scenario_table h)) isp 7 = 2 \<and>
         isp_cooling_get_fps h (Some (scenario_table h)) isp 0 = 30 \<and>
         isp_cooling_get_fps h (Some (scenario_table h)) isp 2 = 7"
proof -
  from assms have v: "valid_entries h (scenario_table h) = [entry 30 0, entry 15 1, entry 7 2]"
    by (auto simp: scenario_table_def entry_def)
  have fe: "fps (entry f d) = f" for f d by (simp add: entry_def)
  from assms have c: "count_levels h (valid_entries h (scenario_table h))
      (ISP_FPS_ENTRY_INVALID h, - 1, 0) = (7, 1, 3)"
    by (simp add: v fe)
  have g: "get_property h (Some (scenario_table h)) isp x True GET_MAXL = Inr 2"
    for x unfolding get_property_Some c by simp
  have l30: "get_property h (Some (scenario_table h)) isp 30 True GET_LEVEL = Inr 0"
    using assms unfolding get_property_Some c by (simp add: v fe)
  have l7: "get_property h (Some (scenario_table h)) isp 7 True GET_LEVEL = Inr 2"
    using assms unfolding get_property_Some c by (simp add: v fe)
  have f0: "get_property h (Some (scenario_table h)) isp 0 True GET_FPS = Inr 30"
    using assms unfolding get_property_Some c by (simp add: v fe)
  have f2: "get_property h (Some (scenario_table h)) isp 2 True GET_FPS = Inr 7"
    using assms unfolding get_property_Some c by (simp add: v fe)
  have u30: "(ucast (30 :: uint) :: ulong) = 30" and u7: "(ucast (7 :: uint) :: ulong) = 7"
    by simp_all
  show ?thesis
    by (simp add: g l30 l7 f0 f2 isp_cooling_get_level_def isp_cooling_get_fps_def u30 u7)
qed

text \<open>C4, at concrete inputs. The scenario with the sample values of the header.\<close>

theorem descending_scenario_witness:
  "ISP_FPS_TABLE_END sample_h \<notin> {30, 15, 7} \<and> ISP_FPS_ENTRY_INVALID sample_h \<notin> {30, 15, 7} \<and>
   get_property sample_h (Some (scenario_table sample_h)) 0 0 True GET_MAXL = Inr 2 \<and>
   get_property sample_h (Some (scenario_table sample_h)) 0 30 True GET_LEVEL = Inr 0 \<and>
   get_property sample_h (Some (scenario_table sample_h)) 0 7 True GET_LEVEL = Inr 2 \<and>
   get_property sample_h (Some (scenario_table sample_h)) 0 0 True GET_FPS = Inr 30 \<and>
   get_property sample_h (Some (scenario_table sample_h)) 0 2 True GET_FPS = Inr 7"
proof -
  have e: "ISP_FPS_TABLE_END sample_h \<notin> {30, 15, 7}"
    and i: "ISP_FPS_ENTRY_INVALID sample_h \<notin> {30, 15, 7}"
    by (simp_all add: sample_h_def)
  from descending_scenario [OF e i, of 0 0] e i show ?thesis by simp
qed

text \<open>
  C5. The fps of a level is the fps of the distinct entry at that position, and the call
  fails with \<open>EINVAL\<close> when the level is above the maximum level or the table is empty.
  The code breaks the first half on the one-value table \<open>[(30, 0), END]\<close>: the maximum
  level is 0, yet level 0 fails with \<open>EINVAL\<close>, and \<^verbatim>\<open>isp_cooling_get_fps\<close>
  returns \<^verbatim>\<open>ISP_FPS_INVALID\<close>. (With two distinct values or more, and levels below
  \<open>2 ^ 31\<close>, the code does what the claim says: \<open>get_fps_distinct\<close>,
  \<open>get_fps_above\<close>. The level \<open>2 ^ 32\<close> is read as level 0:
  \<open>level_to_fps_truncates\<close>.)
\<close>

theorem level_to_fps_fails_single:
  "get_property sample_h (Some (single_table sample_h)) 0 0 True GET_MAXL = Inr 0 \<and>
   get_property sample_h (Some (single_table sample_h)) 0 0 True GET_FPS = Inl EINVAL \<and>
   isp_cooling_get_fps sample_h (Some (single_table sample_h)) 0 0 = ISP_FPS_INVALID sample_h"
  by (simp add: get_property_def isp_cooling_get_fps_def single_table_def sample_h_def entry_def)

text \<open>
  C6. When the table pointer is null, or the table has no valid entry, every query (maximum
  level, level of an fps, fps of a level) fails with \<open>EINVAL\<close>, whatever its input.
\<close>

theorem no_valid_entry_fails:
  assumes "table = None \<or> (\<exists>tbl. table = Some tbl \<and> valid_entries h tbl = [])"
  shows "get_property h table isp x output property = Inl EINVAL"
  using assms by (auto simp: get_property_def)

text \<open>
  C6, at concrete inputs. The theorem at the null pointer and at a table of one invalid
  entry followed by the sentinel (what follows the sentinel is not read).
\<close>

theorem no_valid_entry_fails_witness:
  "valid_entries sample_h [entry (- 1) 0, entry (- 2) 0, entry 30 1] = [] \<and>
   get_property sample_h (Some [entry (- 1) 0, entry (- 2) 0, entry 30 1]) 0 0 True GET_MAXL = Inl EINVAL \<and>
   get_property sample_h (Some [entry (- 1) 0, entry (- 2) 0, entry 30 1]) 0 30 True GET_LEVEL = Inl EINVAL \<and>
   get_property sample_h (Some [entry (- 1) 0, entry (- 2) 0, entry 30 1]) 0 0 True GET_FPS = Inl EINVAL \<and>
   get_property sample_h None 0 0 True GET_MAXL = Inl EINVAL \<and>
   get_property sample_h None 0 30 True GET_LEVEL = Inl EINVAL \<and>
   get_property sample_h None 0 0 True GET_FPS = Inl EINVAL"
proof -
  have v: "valid_entries sample_h [entry (- 1) 0, entry (- 2) 0, entry 30 1] = []"
    by (simp add: sample_h_def entry_def)
  then have s: "Some [entry (- 1) 0, entry (- 2) 0, entry 30 1] = None \<or>
     (\<exists>tbl. Some [entry (- 1) 0, entry (- 2) 0, entry 30 1] = Some tbl \<and>
        valid_entries sample_h tbl = [])"
    by simp
  have n: "None = None \<or> (\<exists>tbl. None = Some tbl \<and> valid_entries sample_h tbl = [])"
    by simp
  show ?thesis
    using v no_valid_entry_fails [OF s] no_valid_entry_fails [OF n] by simp
qed

text \<open>
  C7. For every fps table, every query (the maximum level, the level of any fps, the fps of
  any level) gives the same result on the table as on the table with its consecutive
  duplicate fps entries removed. The same holds when the table pointer is null.
\<close>

theorem get_property_remove_duplicates:
  "get_property h (map_option remove_duplicates table) isp input output property =
   get_property h table isp input output property"
  by (cases table)
     (simp_all add: get_property_def count_levels_remove_duplicates find_entry_remove_duplicates
        split: prod.splits)

text \<open>
  C8, as the claim states it. The table has one entry per run of consecutive ranges with the
  same max-frequency. For the ranges with max-frequencies \<open>0xFFFFFFFF\<close> and 30 that
  would be two entries; the code stores one, for 30, since the first range equals the initial
  \<^verbatim>\<open>last_fps\<close> and is skipped as a duplicate.
\<close>

theorem table_init_drops_leading_marker:
  "isp_cooling_table_init sample_h
     (sample_env [thermal_range 0 0xFFFFFFFF, thermal_range 10 30] False) None =
     Returned (Inr ()) (Some [entry 30 0, terminator sample_h, zero_entry]) \<and>
   entries_from 0 (collapsed_frequencies [thermal_range 0 0xFFFFFFFF, thermal_range 10 30]) =
     [entry 0xFFFFFFFF 0, entry 30 1] \<and>
   isp_cooling_table_init sample_h
     (sample_env [thermal_range 0 0xFFFFFFFF, thermal_range 10 30] False) None \<noteq>
     Returned (Inr ())
       (Some (entries_from 0
                (collapsed_frequencies [thermal_range 0 0xFFFFFFFF, thermal_range 10 30]) @
              [terminator sample_h]))"
  by (simp add: isp_cooling_table_init_def sample_env_def ect_ap_thermal_get_function_def
      kzalloc_def num_of_range_def thermal_range_def zero_entry_def terminator_def entry_def
      collapsed_frequencies_def)

text \<open>
  C8, amended. In a kernel configured with ECT, with the thermal block and its function
  \<open>ISP\<close> present and the array allocated, table construction skips the leading ranges
  whose max-frequency is \<open>0xFFFFFFFF\<close> and then stores one entry per run of consecutive
  ranges with the same max-frequency: the frequency of the first range of the run, the
  sequential index as identifier. The terminator follows the last entry stored (the rest of
  the array stays zero), and the function returns 0. When the first range's max-frequency is
  not \<open>0xFFFFFFFF\<close>, or there is no range, these are the runs of all ranges. Without the
  thermal block, or without the function \<open>ISP\<close> in it, the function returns
  \<open>ENODEV\<close> and leaves the table pointer as it was.
\<close>

theorem table_init_builds:
  "(CONFIG_ECT env \<and> thermal_block env = Some block \<and>
    ect_ap_thermal_get_function block ''ISP'' = Some function \<and> \<not> kzalloc_fails env \<longrightarrow>
      isp_cooling_table_init h env g =
        Returned (Inr ())
          (Some (entries_from 0 (kept_frequencies (range_list function)) @ [terminator h] @
             replicate (num_of_range function - length (kept_frequencies (range_list function)))
               zero_entry))) \<and>
   (CONFIG_ECT env \<and> thermal_block env = Some block \<and>
    ect_ap_thermal_get_function block ''ISP'' = Some function \<and> \<not> kzalloc_fails env \<and>
    (range_list function = [] \<or> max_frequency (hd (range_list function)) \<noteq> - 1) \<longrightarrow>
      kept_frequencies (range_list function) = collapsed_frequencies (range_list function)) \<and>
   (CONFIG_ECT env \<and> thermal_block env = None \<longrightarrow>
      isp_cooling_table_init h env g = Returned (Inl ENODEV) g) \<and>
   (CONFIG_ECT env \<and> thermal_block env = Some block \<and>
    ect_ap_thermal_get_function block ''ISP'' = None \<longrightarrow>
      isp_cooling_table_init h env g = Returned (Inl ENODEV) g)"
proof (intro conjI impI)
  assume "CONFIG_ECT env \<and> thermal_block env = Some block \<and>
    ect_ap_thermal_get_function block ''ISP'' = Some function \<and> \<not> kzalloc_fails env"
  then show "isp_cooling_table_init h env g =
        Returned (Inr ())
          (Some (entries_from 0 (kept_frequencies (range_list function)) @ [terminator h] @
             replicate (num_of_range function - length (kept_frequencies (range_list function)))
               zero_entry))"
    by (intro table_init_success [where block = block]) simp_all
next
  assume "CONFIG_ECT env \<and> thermal_block env = Some block \<and>
    ect_ap_thermal_get_function block ''ISP'' = Some function \<and> \<not> kzalloc_fails env \<and>
    (range_list function = [] \<or> max_frequency (hd (range_list function)) \<noteq> - 1)"
  then have "range_list function = [] \<or> max_frequency (hd (range_list function)) \<noteq> - 1"
    by simp
  then show "kept_frequencies (range_list function) = collapsed_frequencies (range_list function)"
    by (cases "range_list function")
      (auto simp: kept_frequencies_def collapsed_frequencies_def)
next
  assume "CONFIG_ECT env \<and> thermal_block env = None"
  then show "isp_cooling_table_init h env g = Returned (Inl ENODEV) g"
    by (simp add: isp_cooling_table_init_def)
next
  assume "CONFIG_ECT env \<and> thermal_block env = Some block \<and>
    ect_ap_thermal_get_function block ''ISP'' = None"
  then show "isp_cooling_table_init h env g = Returned (Inl ENODEV) g"
    by (simp add: isp_cooling_table_init_def)
qed

text \<open>
  C8, at concrete inputs. The theorem on four ranges with max-frequencies 60, 60, 30, 15, on
  an environment without thermal block, and on a block that holds another function only.
\<close>

theorem table_init_builds_witness:
  "isp_cooling_table_init sample_h
     (sample_env [thermal_range 0 60, thermal_range 10 60, thermal_range 20 30, thermal_range 30 15] False) None =
     Returned (Inr ())
       (Some [entry 60 0, entry 30 1, entry 15 2, terminator sample_h, zero_entry]) \<and>
   kept_frequencies [thermal_range 0 60, thermal_range 10 60, thermal_range 20 30, thermal_range 30 15] =
     collapsed_frequencies [thermal_range 0 60, thermal_range 10 60, thermal_range 20 30, thermal_range 30 15] \<and>
   isp_cooling_table_init sample_h
     \<lparr>CONFIG_ECT = True, thermal_block = None, kzalloc_fails = False\<rparr> None =
     Returned (Inl ENODEV) None \<and>
   isp_cooling_table_init sample_h
     \<lparr>CONFIG_ECT = True,
      thermal_block = Some [\<lparr>function_name = ''MIF'', range_list = [thermal_range 0 60]\<rparr>],
      kzalloc_fails = False\<rparr> None =
     Returned (Inl ENODEV) None"
proof -
  let ?rs = "[thermal_range 0 60, thermal_range 10 60, thermal_range 20 30, thermal_range 30 15]"
  let ?f = "\<lparr>function_name = ''ISP'', range_list = ?rs\<rparr>"
  let ?m = "\<lparr>function_name = ''MIF'', range_list = [thermal_range 0 60]\<rparr>"
  have k: "kept_frequencies ?rs = [60, 30, 15]"
    by (simp add: kept_frequencies_def thermal_range_def)
  have a: "isp_cooling_table_init sample_h (sample_env ?rs False) None =
     Returned (Inr ())
       (Some [entry 60 0, entry 30 1, entry 15 2, terminator sample_h, zero_entry])"
    using table_init_builds [of "sample_env ?rs False" "[?f]" ?f sample_h None]
    by (simp add: sample_env_def ect_ap_thermal_get_function_def num_of_range_def k entry_def)
  have b: "kept_frequencies ?rs = collapsed_frequencies ?rs"
    using table_init_builds [of "sample_env ?rs False" "[?f]" ?f sample_h None]
    by (simp add: sample_env_def ect_ap_thermal_get_function_def thermal_range_def)
  have c: "isp_cooling_table_init sample_h
     \<lparr>CONFIG_ECT = True, thermal_block = None, kzalloc_fails = False\<rparr> None =
     Returned (Inl ENODEV) None"
    using table_init_builds
      [of "\<lparr>CONFIG_ECT = True, thermal_block = None, kzalloc_fails = False\<rparr>" "[]" ?f sample_h None]
    by simp
  have d: "isp_cooling_table_init sample_h
     \<lparr>CONFIG_ECT = True, thermal_block = Some [?m], kzalloc_fails = False\<rparr> None =
     Returned (Inl ENODEV) None"
    using table_init_builds
      [of "\<lparr>CONFIG_ECT = True, thermal_block = Some [?m], kzalloc_fails = False\<rparr>" "[?m]" ?f
        sample_h None]
    by (simp add: ect_ap_thermal_get_function_def)
  from a b c d show ?thesis by simp
qed

text \<open>
  C9. When the allocation of the table fails, construction is to fail with \<open>ENOMEM\<close>.
  The code does not look at what \<^verbatim>\<open>kzalloc\<close> returns: with two ranges and no memory it
  stores through the null pointer (\<open>table_init_no_memory\<close> shows the same for every
  configuration).
\<close>

theorem table_init_no_memory_null_store:
  "isp_cooling_table_init sample_h (sample_env [thermal_range 0 30, thermal_range 10 15] True) None = Null_Store"
  by (simp add: isp_cooling_table_init_def sample_env_def ect_ap_thermal_get_function_def
      kzalloc_def num_of_range_def thermal_range_def)text \<open>
  C10. On a table with exactly one distinct fps value \<open>v\<close> the maximum level is
  returned and is 0, but the level of \<open>v\<close> and the fps of level 0 both fail with
  \<open>EINVAL\<close>: the variable \<^verbatim>\<open>fps\<close> still holds \<open>v\<close> when the second loop
  starts, so that loop skips every entry as a duplicate.
\<close>

theorem single_value_table:
  assumes "distinct_fps h tbl = [v]"
  shows "get_property h (Some tbl) isp x True GET_MAXL = Inr 0 \<and>
         fst (count_levels h (valid_entries h tbl) (ISP_FPS_ENTRY_INVALID h, - 1, 0)) = v \<and>
         get_property h (Some tbl) isp (ucast v) True GET_LEVEL = Inl EINVAL \<and>
         get_property h (Some tbl) isp 0 True GET_FPS = Inl EINVAL"
proof -
  let ?fs = "map fps (valid_entries h tbl)"
  from assms have r: "remdups_adj ?fs = [v]" by (simp add: distinct_fps_def)
  then have rep: "?fs = replicate (length ?fs) v" by (rule remdups_adj_singleton)
  from r have ne: "?fs \<noteq> []" by auto
  from rep have "\<forall>y \<in> set ?fs. y = v" by (metis in_set_replicate)
  then have same: "\<forall>e \<in> set (valid_entries h tbl). fps e = v" by simp
  from ne rep have "last ?fs = v"
    by (metis last_replicate length_0_conv)
  with ne have l: "last (ISP_FPS_ENTRY_INVALID h # ?fs) = v" by simp
  have c: "count_levels h (valid_entries h tbl) (ISP_FPS_ENTRY_INVALID h, - 1, 0) = (v, - 1, 1)"
    unfolding count_levels_table l by (simp add: assms spec_descend_def)
  show ?thesis
    by (simp add: get_property_def c find_entry_all_same [OF same])
qed

text \<open>C10, at concrete inputs. The theorem at the table \<open>[(30, 0), END]\<close>.\<close>

theorem single_value_table_witness:
  "distinct_fps sample_h (single_table sample_h) = [30] \<and>
   get_property sample_h (Some (single_table sample_h)) 0 0 True GET_MAXL = Inr 0 \<and>
   get_property sample_h (Some (single_table sample_h)) 0 30 True GET_LEVEL = Inl EINVAL \<and>
   get_property sample_h (Some (single_table sample_h)) 0 0 True GET_FPS = Inl EINVAL"
  using single_value_table [OF distinct_fps_single, of 0 0] distinct_fps_single by simp

end
